theory Spec2Isabelle
  imports Complex_Main "HOL-Library.Word" "HOL-Library.Log_Nat"
begin

section \<open>benchFitModel.cxx: a mock fit model benchmarked under three evaluation strategies\<close>

text \<open>
  The source file holds two functions, \<^verbatim>\<open>randomiseParameters\<close> and
  \<^verbatim>\<open>benchModel\<close>, and the registration of the benchmarks. Everything else
  (the workspace factory, event generation, the fit) is a call into the RooFit library.
  A C++ \<^verbatim>\<open>double\<close> is a binary64 number: in \<^verbatim>\<open>randomiseParameters\<close> and in the
  coefficients of \<^verbatim>\<open>benchModel\<close> every literal and every operation is rounded to
  nearest, ties to even, with overflow to infinity and with NaN. The numbers inside the
  factory strings, which the library parses, are kept as written.
\<close>

subsection \<open>binary64\<close>

text \<open>
  Rounding on the rationals. \<open>binade x\<close> is the exponent \<open>e\<close> with
  \<open>2 ^ e \<le> x < 2 ^ (e + 1)\<close>. A number is rounded to a multiple of
  \<open>2 ^ (e - 52)\<close>, or of \<open>2 ^ - 1074\<close> where that is larger (the subnormal
  numbers), to the nearest one and to the even one of two that are equally near.
  \<open>to_double\<close> rounds as if the exponent had no upper bound.
\<close>

definition binade :: "rat \<Rightarrow> int" where
  "binade x =
     (let (a, b) = quotient_of x; k = bitlen a - bitlen b
      in if 2 powi k \<le> x then k else k - 1)"

definition round_half_even :: "rat \<Rightarrow> int" where
  "round_half_even m =
     (let f = \<lfloor>m\<rfloor>; d = m - of_int f
      in if d < 1 / 2 then f else if 1 / 2 < d then f + 1 else if even f then f else f + 1)"

definition ulp_exponent :: "rat \<Rightarrow> int" where
  "ulp_exponent x = max (binade \<bar>x\<bar> - 52) (- 1074)"

definition to_double :: "rat \<Rightarrow> rat" where
  "to_double x =
     (if x = 0 then 0
      else let ulp = 2 powi ulp_exponent x
           in sgn x * of_int (round_half_even (\<bar>x\<bar> / ulp)) * ulp)"

text \<open>The largest finite binary64 number, \<open>(2 - 2 ^ - 52) * 2 ^ 1023\<close>.\<close>

definition DBL_MAX :: rat where
  "DBL_MAX = (2 ^ 53 - 1) * 2 ^ 971"

text \<open>
  What a floating-point computation can give: a number, an infinity or NaN. A
  \<^verbatim>\<open>double\<close> is such a value over the rationals; \<open>Finite x\<close> is a
  \<^verbatim>\<open>double\<close> only when \<open>x\<close> is a binary64 number, which \<open>is_double\<close> says.
  The two zeros are not told apart.
\<close>

datatype 'a ieee = Finite 'a | PlusInfinity | MinusInfinity | NaN

type_synonym double = "rat ieee"

definition is_double :: "rat \<Rightarrow> bool" where
  "is_double x = (to_double x = x \<and> \<bar>x\<bar> \<le> DBL_MAX)"

text \<open>A rounded result beyond the largest finite number is an infinity.\<close>

definition round_double :: "rat \<Rightarrow> double" where
  "round_double x =
     (let r = to_double x
      in if DBL_MAX < r then PlusInfinity
         else if r < - DBL_MAX then MinusInfinity
         else Finite r)"

text \<open>
  Negation and the exact sum, with the rules for infinities and NaN: a sum with NaN, or
  of the two infinities, is NaN.
\<close>

fun ieee_neg :: "'a::uminus ieee \<Rightarrow> 'a ieee" where
  "ieee_neg (Finite r) = Finite (- r)"
| "ieee_neg PlusInfinity = MinusInfinity"
| "ieee_neg MinusInfinity = PlusInfinity"
| "ieee_neg NaN = NaN"

fun ieee_add :: "'a::plus ieee \<Rightarrow> 'a ieee \<Rightarrow> 'a ieee" where
  "ieee_add (Finite a) (Finite b) = Finite (a + b)"
| "ieee_add NaN b = NaN"
| "ieee_add a NaN = NaN"
| "ieee_add PlusInfinity MinusInfinity = NaN"
| "ieee_add MinusInfinity PlusInfinity = NaN"
| "ieee_add PlusInfinity b = PlusInfinity"
| "ieee_add a PlusInfinity = PlusInfinity"
| "ieee_add MinusInfinity b = MinusInfinity"
| "ieee_add a MinusInfinity = MinusInfinity"

text \<open>
  The operators \<^verbatim>\<open>+\<close>, \<^verbatim>\<open>-\<close> and \<^verbatim>\<open>*\<close> on \<^verbatim>\<open>double\<close>: the exact
  result of two numbers is rounded; a product of an infinity and zero is NaN, any other
  product with an infinity is the infinity of the product's sign. Each operation rounds
  by itself: a product and a sum are not fused.
\<close>

definition d_add :: "double \<Rightarrow> double \<Rightarrow> double" where
  "d_add a b = (case ieee_add a b of Finite s \<Rightarrow> round_double s | other \<Rightarrow> other)"

definition d_sub :: "double \<Rightarrow> double \<Rightarrow> double" where
  "d_sub a b = d_add a (ieee_neg b)"

fun sign_of :: "double \<Rightarrow> rat" where
  "sign_of (Finite a) = sgn a"
| "sign_of PlusInfinity = 1"
| "sign_of MinusInfinity = - 1"
| "sign_of NaN = 0"

fun d_mul :: "double \<Rightarrow> double \<Rightarrow> double" where
  "d_mul (Finite a) (Finite b) = round_double (a * b)"
| "d_mul NaN b = NaN"
| "d_mul a NaN = NaN"
| "d_mul a b =
     (if sign_of a * sign_of b = 0 then NaN
      else if 0 < sign_of a * sign_of b then PlusInfinity
      else MinusInfinity)"

text \<open>The comparison \<^verbatim>\<open><=\<close>: false whenever an operand is NaN.\<close>

fun d_le :: "double \<Rightarrow> double \<Rightarrow> bool" where
  "d_le NaN b = False"
| "d_le a NaN = False"
| "d_le (Finite a) (Finite b) = (a \<le> b)"
| "d_le MinusInfinity b = True"
| "d_le a PlusInfinity = True"
| "d_le a b = False"

subsection \<open>Parameters and the random generator\<close>

text \<open>
  What \<^verbatim>\<open>randomiseParameters\<close> uses of a \<^verbatim>\<open>RooAbsRealLValue\<close>: its value
  and the two ends of its range.
\<close>

record RooAbsRealLValue =
  getVal :: double
  getMin :: double
  getMax :: double

text \<open>
  \<^verbatim>\<open>RooRandom::randomGenerator()\<close> returns a pointer to the one generator of the
  process. The generator class is library code: its two member functions used here are
  taken as parameters over a state type \<open>'g\<close>, the state of that generator.
  \<^verbatim>\<open>ULong_t\<close> is a 64-bit unsigned integer.
\<close>

record 'g TRandom =
  SetSeed :: "64 word \<Rightarrow> 'g \<Rightarrow> 'g"
  Uniform :: "'g \<Rightarrow> double \<times> 'g"

text \<open>
  The loop \<^verbatim>\<open>for (auto param : parameters)\<close>: one draw per parameter, in the order
  of the set, each parameter set to \<^verbatim>\<open>min + uni * (max - min)\<close>. A
  \<^verbatim>\<open>RooArgSet\<close> holds each parameter once, so a list of parameter values stands
  for it.
\<close>

fun randomise_loop ::
  "'g TRandom \<Rightarrow> RooAbsRealLValue list \<Rightarrow> 'g \<Rightarrow> RooAbsRealLValue list \<times> 'g" where
  "randomise_loop random [] g = ([], g)"
| "randomise_loop random (par # rest) g =
     (let (uni, g1) = Uniform random g;
          mn = getMin par;
          mx = getMax par;
          par' = par\<lparr>getVal := d_add mn (d_mul uni (d_sub mx mn))\<rparr>;
          (rest', g2) = randomise_loop random rest g1
      in (par' # rest', g2))"

text \<open>
  \<^verbatim>\<open>randomiseParameters(parameters, seed)\<close>: the state \<open>g\<close> of the process-wide
  generator goes in and comes out; the generator is reseeded only when the seed is not 0.
\<close>

definition randomiseParameters ::
  "'g TRandom \<Rightarrow> RooAbsRealLValue list \<Rightarrow> 64 word \<Rightarrow> 'g \<Rightarrow> RooAbsRealLValue list \<times> 'g" where
  "randomiseParameters random parameters seed g =
     randomise_loop random parameters (if seed \<noteq> 0 then SetSeed random seed g else g)"

text \<open>
  When a parameter's range is one the claim about the bounds is about: both ends are
  binary64 numbers, the lower not above the upper, and their distance is not beyond the
  largest finite number, so that \<^verbatim>\<open>max - min\<close> does not overflow.
\<close>

definition finite_range :: "RooAbsRealLValue \<Rightarrow> bool" where
  "finite_range p =
     (case (getMin p, getMax p) of
        (Finite a, Finite b) \<Rightarrow> is_double a \<and> is_double b \<and> a \<le> b \<and> b - a \<le> DBL_MAX
      | other \<Rightarrow> False)"

definition within_range :: "RooAbsRealLValue \<Rightarrow> bool" where
  "within_range p = (d_le (getMin p) (getVal p) \<and> d_le (getVal p) (getMax p))"

text \<open>A draw the claim about the bounds is about: a binary64 number in \<open>[0, 1)\<close>.\<close>

definition unit_draw :: "double \<Rightarrow> bool" where
  "unit_draw d = (case d of Finite u \<Rightarrow> is_double u \<and> 0 \<le> u \<and> u < 1 | other \<Rightarrow> False)"

subsection \<open>The coefficients of benchModel\<close>

text \<open>
  \<^verbatim>\<open>c * nEvents\<close> for a decimal literal \<open>c\<close> and a \<^verbatim>\<open>std::size_t\<close>: the literal
  is rounded, the integer is converted, the product is rounded.
\<close>

definition literal_times :: "rat \<Rightarrow> nat \<Rightarrow> real" where
  "literal_times c n = of_rat (to_double (to_double c * to_double (of_nat n)))"

subsection \<open>The workspace\<close>

text \<open>
  A variable of the workspace, as far as the factory strings state it: \<^verbatim>\<open>name[v]\<close>
  gives a value, \<^verbatim>\<open>name[lo,hi]\<close> a range, \<^verbatim>\<open>name[v,lo,hi]\<close> both. The
  value of a variable declared with a range only is chosen by the library and is
  \<open>None\<close> here until the benchmark sets it.
\<close>

record RooRealVar =
  val :: "real option"
  limits :: "(real \<times> real) option"

text \<open>
  A pdf of the workspace: a component of a named class over named variables, or the sum
  of named pdfs, each with the name of its coefficient.
\<close>

datatype RooAbsPdf =
  Component string "string list"
| RooAddPdf "(string \<times> string) list"

record RooWorkspace =
  vars :: "string \<rightharpoonup> RooRealVar"
  pdfs :: "string \<rightharpoonup> RooAbsPdf"

text \<open>
  The argument of \<^verbatim>\<open>w.factory\<close> in parsed form: an argument is a name or a name
  with a bracket of numbers; an expression is \<^verbatim>\<open>Class::name(args)\<close> or
  \<^verbatim>\<open>SUM::name(c1*p1, ...)\<close>. The factory is library code; of its effect, this is
  what the strings themselves say: the bracketed variables are declared and the pdf is
  entered under its name.
\<close>

datatype factory_arg =
  Ref string
| Decl string "real list"

datatype factory_expr =
  Create string string "factory_arg list"
| SumExpr string "(factory_arg \<times> string) list"

fun arg_name :: "factory_arg \<Rightarrow> string" where
  "arg_name (Ref n) = n"
| "arg_name (Decl n bracket) = n"

fun declare_var :: "factory_arg \<Rightarrow> RooWorkspace \<Rightarrow> RooWorkspace" where
  "declare_var (Decl n [v]) w = w\<lparr>vars := (vars w)(n \<mapsto> \<lparr>val = Some v, limits = None\<rparr>)\<rparr>"
| "declare_var (Decl n [lo, hi]) w =
     w\<lparr>vars := (vars w)(n \<mapsto> \<lparr>val = None, limits = Some (lo, hi)\<rparr>)\<rparr>"
| "declare_var (Decl n [v, lo, hi]) w =
     w\<lparr>vars := (vars w)(n \<mapsto> \<lparr>val = Some v, limits = Some (lo, hi)\<rparr>)\<rparr>"
| "declare_var arg w = w"

fun factory :: "factory_expr \<Rightarrow> RooWorkspace \<Rightarrow> RooWorkspace" where
  "factory (Create cls name args) w =
     (let w' = fold declare_var args w
      in w'\<lparr>pdfs := (pdfs w')(name \<mapsto> Component cls (map arg_name args))\<rparr>)"
| "factory (SumExpr name terms) w =
     (let w' = fold declare_var (map fst terms) w
      in w'\<lparr>pdfs := (pdfs w')(name \<mapsto> RooAddPdf (map (\<lambda>(c, p). (arg_name c, p)) terms))\<rparr>)"

text \<open>
  \<^verbatim>\<open>NullPointer\<close> is what \<^verbatim>\<open>w.var(name)->setVal(v)\<close> and
  \<^verbatim>\<open>*(w.pdf(name))\<close> run into when the workspace has no object of that name.
\<close>

datatype error = NullPointer

definition and_then :: "error + 'a \<Rightarrow> ('a \<Rightarrow> error + 'b) \<Rightarrow> error + 'b" where
  "and_then r f = (case r of Inl err \<Rightarrow> Inl err | Inr x \<Rightarrow> f x)"

text \<open>
  \<^verbatim>\<open>w.var(name)->setVal(v)\<close>. The value is stored as given: what the library does
  with a value outside the range of the variable is not modelled, and every value the
  benchmark sets lies inside.
\<close>

definition setVal :: "string \<Rightarrow> real \<Rightarrow> RooWorkspace \<Rightarrow> error + RooWorkspace" where
  "setVal name v w =
     (case vars w name of
        None \<Rightarrow> Inl NullPointer
      | Some var \<Rightarrow> Inr (w\<lparr>vars := (vars w)(name \<mapsto> var\<lparr>val := Some v\<rparr>)\<rparr>))"

definition nEvents :: nat where
  "nEvents = 100000"

text \<open>The six \<^verbatim>\<open>w.factory\<close> calls of \<^verbatim>\<open>benchModel\<close>, in order.\<close>

definition build_workspace :: RooWorkspace where
  "build_workspace =
     fold factory
       [Create ''Gamma'' ''vpdf''
          [Decl ''x'' [0, 20], Decl ''g'' [20, 0.1, 40], Decl ''b'' [0.5, 0.01, 10],
           Decl ''m0'' [0]],
        Create ''Gaussian'' ''gpdf''
          [Ref ''x'', Decl ''m1'' [10, 0, 20], Decl ''s1'' [2, 0.1, 10]],
        Create ''Gaussian'' ''g2''
          [Ref ''x'', Decl ''m2'' [5, 0, 20], Decl ''s2'' [0.3, 0.01, 10]],
        Create ''Gaussian'' ''g3''
          [Ref ''x'', Decl ''m3'' [15, 0, 20], Decl ''s3'' [0.4, 0.01, 10]],
        Create ''Polynomial'' ''pol'' [Ref ''x'', Decl ''a'' [- 0.01, - 0.05, 0.1]],
        SumExpr ''model''
          [(Decl ''ns1'' [0, 1000000000], ''vpdf''), (Decl ''ns2'' [0, 10000000000], ''gpdf''),
           (Decl ''ng2'' [0, 1000000000], ''g2''), (Decl ''ng3'' [0, 10000000000], ''g3''),
           (Decl ''npol'' [0, 10000000000], ''pol'')]]
       \<lparr>vars = Map.empty, pdfs = Map.empty\<rparr>"

text \<open>The five \<^verbatim>\<open>setVal\<close> calls under \<^verbatim>\<open>// set coeffients\<close>, in order.\<close>

definition set_coefficients :: "RooWorkspace \<Rightarrow> error + RooWorkspace" where
  "set_coefficients w =
     and_then (setVal ''ns1'' (literal_times 0.2 nEvents) w) (\<lambda>w.
     and_then (setVal ''ns2'' (literal_times 0.3 nEvents) w) (\<lambda>w.
     and_then (setVal ''ng2'' (literal_times 0.1 nEvents) w) (\<lambda>w.
     and_then (setVal ''ng3'' (literal_times 0.1 nEvents) w) (\<lambda>w.
     setVal ''npol'' (literal_times 0.3 nEvents) w))))"

subsection \<open>The library calls of benchModel\<close>

datatype RunConfig_t = fitScalar | fitCpu | fitCuda

text \<open>
  The enumerators of \<^verbatim>\<open>RunConfig_t\<close> as integers: they go into
  \<^verbatim>\<open>Args({...})\<close> and come back from \<^verbatim>\<open>state.range(0)\<close> as such.
\<close>

fun enumerator :: "RunConfig_t \<Rightarrow> int" where
  "enumerator fitScalar = 0"
| "enumerator fitCpu = 1"
| "enumerator fitCuda = 2"

datatype MsgLevel = DEBUG | INFO | PROGRESS | WARNING | ERROR | FATAL

datatype RooCmdArg = BatchMode string | Minimizer string | PrintLevel int

text \<open>
  The calls into the library that concern the observation array, as the benchmark makes
  them: the pdf by name, then the observables and the number of events, or the options.
\<close>

datatype library_call =
  Generate string "string list" nat
| FitTo string "RooCmdArg list"

text \<open>
  Modelled from the spec: \<^verbatim>\<open>RooAbsPdf::generate\<close>, \<^verbatim>\<open>RooAbsPdf::fitTo\<close>
  and the message service are library code, absent from the source file. They are taken
  as parameters, over a type \<open>'d\<close> of datasets and a type \<open>'e\<close> for the state the
  library keeps for itself (its random generator, its message level). Their effects
  follow section 3 of the specification: the Mixture Model and the Observation Array are
  immutable once constructed and only Parameter values change in a fit, so
  \<open>generate\<close> returns the new dataset and \<open>fitTo\<close> returns the values it
  assigns to parameters, by name.
\<close>

record ('d, 'e) RooFit =
  setGlobalKillBelow :: "MsgLevel \<Rightarrow> 'e \<Rightarrow> 'e"
  generate :: "RooWorkspace \<Rightarrow> string \<Rightarrow> string list \<Rightarrow> nat \<Rightarrow> 'e \<Rightarrow> 'd \<times> 'e"
  fitTo :: "RooWorkspace \<Rightarrow> string \<Rightarrow> 'd \<Rightarrow> RooCmdArg list \<Rightarrow> 'e \<Rightarrow> (string \<times> real) list \<times> 'e"

text \<open>A fit writes its result into variables the workspace has; it declares none.\<close>

fun assign :: "(string \<times> real) list \<Rightarrow> RooWorkspace \<Rightarrow> RooWorkspace" where
  "assign [] w = w"
| "assign ((name, v) # rest) w =
     assign rest (case setVal name v w of Inl err \<Rightarrow> w | Inr w' \<Rightarrow> w')"

subsection \<open>benchModel\<close>

text \<open>
  What \<^verbatim>\<open>benchModel\<close> holds while it runs: the workspace, the dataset behind
  \<^verbatim>\<open>data\<close>, the library's own state, and the calls made so far.
\<close>

record ('d, 'e) bench =
  ws :: RooWorkspace
  data :: 'd
  lib :: 'e
  calls :: "library_call list"

text \<open>
  The options of \<^verbatim>\<open>pdf.fitTo\<close> in each branch of the loop body; a value of
  \<^verbatim>\<open>runConfig\<close> that is none of the three enumerators takes no branch.
\<close>

definition fit_options :: "int \<Rightarrow> RooCmdArg list option" where
  "fit_options runConfig =
     (if runConfig = enumerator fitScalar then
        Some [Minimizer ''Minuit2'', PrintLevel (- 1)]
      else if runConfig = enumerator fitCpu then
        Some [BatchMode ''cpu'', Minimizer ''Minuit2'', PrintLevel (- 1)]
      else if runConfig = enumerator fitCuda then
        Some [BatchMode ''cuda'', Minimizer ''Minuit2'', PrintLevel (- 1)]
      else None)"

definition loop_body :: "('d, 'e) RooFit \<Rightarrow> int \<Rightarrow> ('d, 'e) bench \<Rightarrow> ('d, 'e) bench" where
  "loop_body L runConfig st =
     (case fit_options runConfig of
        None \<Rightarrow> st
      | Some options \<Rightarrow>
          (let (result, e) = fitTo L (ws st) ''model'' (data st) options (lib st)
           in st\<lparr>ws := assign result (ws st), lib := e,
                 calls := calls st @ [FitTo ''model'' options]\<rparr>))"

text \<open>
  \<^verbatim>\<open>for (auto _ : state)\<close>: the benchmark library decides how often the body
  runs; the number of iterations is a parameter.
\<close>

primrec state_loop :: "('d, 'e) RooFit \<Rightarrow> int \<Rightarrow> nat \<Rightarrow> ('d, 'e) bench \<Rightarrow> ('d, 'e) bench" where
  "state_loop L runConfig 0 st = st"
| "state_loop L runConfig (Suc n) st = state_loop L runConfig n (loop_body L runConfig st)"

definition benchModel ::
  "('d, 'e) RooFit \<Rightarrow> int \<Rightarrow> nat \<Rightarrow> 'e \<Rightarrow> error + ('d, 'e) bench" where
  "benchModel L range0 iterations e0 =
     (let e1 = setGlobalKillBelow L WARNING e0;
          runConfig = range0
      in and_then (set_coefficients build_workspace) (\<lambda>w.
           case pdfs w ''model'' of
             None \<Rightarrow> Inl NullPointer
           | Some pdf \<Rightarrow>
               (case vars w ''x'' of
                  None \<Rightarrow> Inl NullPointer
                | Some x \<Rightarrow>
                    (let (d, e2) = generate L w ''model'' [''x''] nEvents e1
                     in Inr (state_loop L runConfig iterations
                          \<lparr>ws = w, data = d, lib = e2,
                           calls = [Generate ''model'' [''x''] nEvents]\<rparr>)))))"

subsection \<open>The registered benchmarks\<close>

datatype TimeUnit = kNanosecond | kMicrosecond | kMillisecond | kSecond

record Benchmark =
  Name :: string
  Unit :: TimeUnit
  Args :: "int list"

text \<open>
  The three \<^verbatim>\<open>BENCHMARK(benchModel)\<close> lines; the third stands under
  \<^verbatim>\<open>#ifdef R__HAS_CUDA\<close>.
\<close>

definition registered :: "bool \<Rightarrow> Benchmark list" where
  "registered R__HAS_CUDA =
     [\<lparr>Name = ''fit_Scalar'', Unit = kMillisecond, Args = [enumerator fitScalar]\<rparr>,
      \<lparr>Name = ''fit_CPU'', Unit = kMillisecond, Args = [enumerator fitCpu]\<rparr>]
     @ (if R__HAS_CUDA
        then [\<lparr>Name = ''fit_CUDA'', Unit = kMillisecond, Args = [enumerator fitCuda]\<rparr>]
        else [])"

text \<open>
  \<^verbatim>\<open>BENCHMARK_MAIN()\<close>: every registered benchmark is run in turn, with
  \<^verbatim>\<open>state.range(0)\<close> its first argument, and the outcome is kept under its name. A
  null pointer ends the process. The benchmark library may call a benchmark several times
  to settle the number of iterations; one call of each is modelled.
\<close>

fun run_benchmarks ::
  "('d, 'e) RooFit \<Rightarrow> Benchmark list \<Rightarrow> nat \<Rightarrow> 'e \<Rightarrow> (string \<times> (error + ('d, 'e) bench)) list" where
  "run_benchmarks L [] iterations e = []"
| "run_benchmarks L (b # rest) iterations e =
     (case Args b of
        [] \<Rightarrow> [(Name b, Inl NullPointer)]
      | range0 # others \<Rightarrow>
          (case benchModel L range0 iterations e of
             Inl err \<Rightarrow> [(Name b, Inl err)]
           | Inr st \<Rightarrow> (Name b, Inr st) # run_benchmarks L rest iterations (lib st)))"

definition BENCHMARK_MAIN ::
  "('d, 'e) RooFit \<Rightarrow> bool \<Rightarrow> nat \<Rightarrow> 'e \<Rightarrow> (string \<times> (error + ('d, 'e) bench)) list" where
  "BENCHMARK_MAIN L R__HAS_CUDA iterations e =
     run_benchmarks L (registered R__HAS_CUDA) iterations e"

text \<open>
  The part of a workspace that is the model's structure: its pdfs, its variables and
  their ranges. The values of the variables are not part of it.
\<close>

definition model_structure ::
  "RooWorkspace \<Rightarrow> (string \<rightharpoonup> RooAbsPdf) \<times> (string \<rightharpoonup> (real \<times> real) option)" where
  "model_structure w = (pdfs w, map_option limits \<circ> vars w)"

definition is_Generate :: "library_call \<Rightarrow> bool" where
  "is_Generate c = (case c of Generate pdf obs n \<Rightarrow> True | FitTo pdf options \<Rightarrow> False)"

subsection \<open>The coefficients of the model\<close>

text \<open>
  The values and the ranges of the coefficients of a sum pdf, in the order of its terms;
  \<open>None\<close> when the pdf is not a sum or a coefficient has no value or no range.
\<close>

definition coefficients :: "RooWorkspace \<Rightarrow> string \<Rightarrow> real list option" where
  "coefficients w name =
     (case pdfs w name of
        Some (RooAddPdf terms) \<Rightarrow> those (map (\<lambda>(c, p). Option.bind (vars w c) val) terms)
      | _ \<Rightarrow> None)"

definition coefficient_limits :: "RooWorkspace \<Rightarrow> string \<Rightarrow> (real \<times> real) list option" where
  "coefficient_limits w name =
     (case pdfs w name of
        Some (RooAddPdf terms) \<Rightarrow> those (map (\<lambda>(c, p). Option.bind (vars w c) limits) terms)
      | _ \<Rightarrow> None)"

subsection \<open>The floor of the logarithm\<close>








subsection \<open>Inputs to run the definitions on\<close>

text \<open>
  A library whose datasets are their sizes and whose own state counts its calls; each
  fit moves one parameter and one coefficient.
\<close>

definition counting_library :: "(nat, nat) RooFit" where
  "counting_library =
     \<lparr>setGlobalKillBelow = (\<lambda>level e. e),
      generate = (\<lambda>w pdf observables n e. (n, Suc e)),
      fitTo = (\<lambda>w pdf d options e. ([(''m1'', 10 + real e), (''ns1'', 20001)], Suc e))\<rparr>"


text \<open>
  Two parameters with the ranges \<^verbatim>\<open>[0,20]\<close> and \<^verbatim>\<open>[-0.05,0.1]\<close> of the
  benchmark's \<^verbatim>\<open>x\<close> and \<^verbatim>\<open>a\<close>, and one whose range is the widest there is,
  twice as wide as the largest finite number.
\<close>

definition two_parameters :: "RooAbsRealLValue list" where
  "two_parameters =
     [\<lparr>getVal = round_double 0, getMin = round_double 0, getMax = round_double 20\<rparr>,
      \<lparr>getVal = round_double (- 0.01), getMin = round_double (- 0.05),
       getMax = round_double 0.1\<rparr>]"

definition wide_parameter :: RooAbsRealLValue where
  "wide_parameter =
     \<lparr>getVal = Finite 0, getMin = Finite (- DBL_MAX), getMax = Finite DBL_MAX\<rparr>"

text \<open>
  A small linear congruential generator on 16 states: seeding overwrites the state, a
  draw advances it and returns it scaled into \<open>[0, 1)\<close>. And a generator whose every
  draw is 1.
\<close>

definition lcg16 :: "nat TRandom" where
  "lcg16 = \<lparr>SetSeed = (\<lambda>seed g. unat seed mod 16),
            Uniform = (\<lambda>g. let g' = (5 * g + 3) mod 16 in (Finite (of_nat g' / 16), g'))\<rparr>"

definition draws_one :: "unit TRandom" where
  "draws_one = \<lparr>SetSeed = (\<lambda>seed g. g), Uniform = (\<lambda>g. (Finite 1, g))\<rparr>"

section \<open>Properties of binary64 rounding\<close>

subsection \<open>The binade\<close>

lemma powi_less_cancel:
  fixes m n :: int
  assumes "(2::rat) powi m < 2 powi n"
  shows "m < n"
proof (rule ccontr)
  assume "\<not> m < n"
  then have "n \<le> m" by simp
  then have "(2::rat) powi n \<le> 2 powi m" by (intro power_int_increasing) simp_all
  with assms show False by simp
qed

lemma of_int_bitlen_bounds:
  assumes "0 < a"
  shows "(2::rat) powi (bitlen a - 1) \<le> of_int a" "(of_int a :: rat) < 2 powi bitlen a"
proof -
  from assms have b1: "1 \<le> bitlen a" by (auto simp: bitlen_alt_def)
  from bitlen_bounds[OF assms] have lo: "2 ^ nat (bitlen a - 1) \<le> a" and hi: "a < 2 ^ nat (bitlen a)"
    by simp_all
  from lo have "(of_int (2 ^ nat (bitlen a - 1)) :: rat) \<le> of_int a" by (simp only: of_int_le_iff)
  then show "(2::rat) powi (bitlen a - 1) \<le> of_int a"
    using b1 by (simp add: power_int_def)
  from hi have "(of_int a :: rat) < of_int (2 ^ nat (bitlen a))" by (simp only: of_int_less_iff)
  then show "(of_int a :: rat) < 2 powi bitlen a"
    using b1 by (simp add: power_int_def)
qed

lemma binade_bounds:
  assumes "0 < x"
  shows "2 powi binade x \<le> x" "x < 2 powi (binade x + 1)"
proof -
  obtain a b where q: "quotient_of x = (a, b)" by (cases "quotient_of x")
  then have b: "0 < b" and x: "x = of_int a / of_int b"
    by (simp_all add: quotient_of_denom_pos quotient_of_div)
  with assms have a: "0 < a" by (simp add: zero_less_divide_iff)
  define k where "k = bitlen a - bitlen b"
  note A = of_int_bitlen_bounds[OF a] and B = of_int_bitlen_bounds[OF b]
  have bpos: "(0::rat) < of_int b" using b by simp
  have "x < 2 powi bitlen a / of_int b"
    unfolding x using A(2) bpos by (simp add: divide_strict_right_mono)
  also have "\<dots> \<le> 2 powi bitlen a / 2 powi (bitlen b - 1)"
    using B(1) bpos by (intro divide_left_mono mult_pos_pos) simp_all
  also have "\<dots> = 2 powi (k + 1)"
    by (simp add: k_def power_int_diff[symmetric] algebra_simps)
  finally have hi: "x < 2 powi (k + 1)" .
  have "2 powi (k - 1) = 2 powi (bitlen a - 1) / (2::rat) powi bitlen b"
    by (simp add: k_def power_int_diff[symmetric] algebra_simps)
  also have "\<dots> \<le> of_int a / 2 powi bitlen b"
    using A(1) by (intro divide_right_mono) simp_all
  also have "\<dots> \<le> of_int a / of_int b"
    using B(2) a bpos by (intro divide_left_mono mult_pos_pos) simp_all
  finally have lo: "2 powi (k - 1) \<le> x" unfolding x .
  have bd: "binade x = (if 2 powi k \<le> x then k else k - 1)"
    by (simp add: binade_def q k_def Let_def)
  show "2 powi binade x \<le> x" using lo by (simp add: bd)
  show "x < 2 powi (binade x + 1)" using hi by (auto simp: bd not_le)
qed

lemma binade_unique:
  assumes "0 < x" "2 powi e \<le> x" "x < 2 powi (e + 1)"
  shows "binade x = e"
proof -
  from binade_bounds[OF assms(1)] assms(2,3)
  have 1: "(2::rat) powi e < 2 powi (binade x + 1)" and 2: "(2::rat) powi binade x < 2 powi (e + 1)"
    by simp_all
  from powi_less_cancel[OF 1] powi_less_cancel[OF 2] show ?thesis by simp
qed

lemma binade_mono:
  assumes "0 < x" "x \<le> y"
  shows "binade x \<le> binade y"
proof -
  from assms have y: "0 < y" by simp
  from binade_bounds(1)[OF assms(1)] binade_bounds(2)[OF y] assms(2)
  have "(2::rat) powi binade x < 2 powi (binade y + 1)" by simp
  then have "binade x < binade y + 1" by (rule powi_less_cancel)
  then show ?thesis by simp
qed


subsection \<open>Rounding to an integer\<close>

lemma round_half_even_cases:
  "round_half_even m = \<lfloor>m\<rfloor> \<or> round_half_even m = \<lfloor>m\<rfloor> + 1"
  by (simp add: round_half_even_def Let_def)

lemma round_half_even_of_int [simp]: "round_half_even (of_int n) = n"
  by (simp add: round_half_even_def)

lemma round_half_even_ge:
  assumes "of_int n \<le> m"
  shows "n \<le> round_half_even m"
proof -
  from assms have "n \<le> \<lfloor>m\<rfloor>" by (simp add: le_floor_iff)
  with round_half_even_cases[of m] show ?thesis by auto
qed

lemma round_half_even_le:
  assumes "m \<le> of_int n"
  shows "round_half_even m \<le> n"
proof (cases "m = of_int n")
  case True
  then show ?thesis by simp
next
  case False
  with assms have "m < of_int n" by simp
  then have "\<lfloor>m\<rfloor> < n" by (simp add: floor_less_iff)
  with round_half_even_cases[of m] show ?thesis by auto
qed

lemma round_half_even_upper: "of_int (round_half_even m) \<le> m + 1 / 2"
proof -
  define f where "f = \<lfloor>m\<rfloor>"
  have f: "of_int f \<le> m" by (simp add: f_def)
  consider (a) "m - of_int f < 1 / 2" | (b) "1 / 2 < m - of_int f" | (c) "m - of_int f = 1 / 2"
    by linarith
  then show ?thesis
  proof cases
    case a
    then have "round_half_even m = f" by (simp add: round_half_even_def f_def Let_def)
    with f show ?thesis by simp
  next
    case b
    then have "round_half_even m = f + 1" by (simp add: round_half_even_def f_def Let_def)
    with b show ?thesis by simp
  next
    case c
    then have "round_half_even m = f \<or> round_half_even m = f + 1"
      using round_half_even_cases[of m] by (simp add: f_def)
    with c f show ?thesis by auto
  qed
qed


subsection \<open>Rounding to binary64\<close>

lemma to_double_pos:
  assumes "0 < x"
  shows "to_double x = of_int (round_half_even (x / 2 powi ulp_exponent x)) * 2 powi ulp_exponent x"
  using assms by (simp add: to_double_def Let_def)

lemma ulp_exponent_minus [simp]: "ulp_exponent (- x) = ulp_exponent x"
  by (simp add: ulp_exponent_def)

lemma to_double_minus: "to_double (- x) = - to_double x"
  by (simp add: to_double_def Let_def sgn_minus)

lemma to_double_0 [simp]: "to_double 0 = 0"
  by (simp add: to_double_def)

lemma ulp_exponent_mono:
  assumes "0 < x" "x \<le> y"
  shows "ulp_exponent x \<le> ulp_exponent y"
  using binade_mono[OF assms] assms by (simp add: ulp_exponent_def)

lemma ulp_exponent_ge: "- 1074 \<le> ulp_exponent x" "binade \<bar>x\<bar> - 52 \<le> ulp_exponent x"
  by (simp_all add: ulp_exponent_def)

lemma to_double_nonneg:
  assumes "0 < x"
  shows "0 \<le> to_double x"
proof -
  have "(of_int 0 :: rat) \<le> x / 2 powi ulp_exponent x" using assms by simp
  then have "0 \<le> round_half_even (x / 2 powi ulp_exponent x)" by (rule round_half_even_ge)
  then show ?thesis by (simp add: to_double_pos[OF assms])
qed

lemma scale_le:
  fixes n m :: int
  assumes "n \<le> m"
  shows "of_int n * (2::rat) powi k \<le> of_int m * 2 powi k"
proof -
  from assms have "(of_int n :: rat) \<le> of_int m" by (simp only: of_int_le_iff)
  then show ?thesis by (intro mult_right_mono) simp_all
qed

lemma to_double_le_pos:
  assumes x: "0 < x" and xz: "x \<le> z" and z: "to_double z = z"
  shows "to_double x \<le> z"
proof -
  from x xz have zp: "0 < z" by simp
  define kx where "kx = ulp_exponent x"
  define kz where "kz = ulp_exponent z"
  define nz where "nz = round_half_even (z / 2 powi kz)"
  define N where "N = nz * 2 ^ nat (kz - kx)"
  have k: "kx \<le> kz" unfolding kx_def kz_def by (rule ulp_exponent_mono[OF x xz])
  have zf: "z = of_int nz * 2 powi kz"
    using to_double_pos[OF zp] z by (simp add: nz_def kz_def)
  have "(2::rat) powi (kz - kx) * 2 powi kx = 2 powi (kz - kx + kx)"
    by (rule power_int_add[symmetric]) simp
  then have "2 powi kz = (2::rat) powi (kz - kx) * 2 powi kx" by simp
  also have "(2::rat) powi (kz - kx) = of_int (2 ^ nat (kz - kx))"
    using k by (simp add: power_int_def)
  finally have zN: "z = of_int N * 2 powi kx"
    using zf by (simp add: N_def)
  then have zd: "z / 2 powi kx = of_int N" by simp
  have "x / 2 powi kx \<le> z / 2 powi kx"
    using xz by (intro divide_right_mono) simp_all
  then have "x / 2 powi kx \<le> of_int N" by (simp only: zd)
  then have "round_half_even (x / 2 powi kx) \<le> N"
    by (rule round_half_even_le)
  from scale_le[OF this, of kx] zN show ?thesis
    by (simp add: to_double_pos[OF x] kx_def)
qed

lemma to_double_ge_pos:
  assumes z: "0 < z" and zx: "z \<le> x" and zd: "to_double z = z"
  shows "z \<le> to_double x"
proof -
  from z zx have x: "0 < x" by simp
  define kx where "kx = ulp_exponent x"
  define kz where "kz = ulp_exponent z"
  define nz where "nz = round_half_even (z / 2 powi kz)"
  define r where "r = round_half_even (x / 2 powi kx)"
  have k: "kz \<le> kx" unfolding kx_def kz_def by (rule ulp_exponent_mono[OF z zx])
  have zf: "z = of_int nz * 2 powi kz"
    using to_double_pos[OF z] zd by (simp add: nz_def kz_def)
  have rx: "to_double x = of_int r * 2 powi kx"
    by (simp add: to_double_pos[OF x] kx_def r_def)
  show ?thesis
  proof (cases "kz = kx")
    case True
    from zf True have e: "z / 2 powi kx = of_int nz" by simp
    have "z / 2 powi kx \<le> x / 2 powi kx"
      using zx by (intro divide_right_mono) simp_all
    then have "of_int nz \<le> x / 2 powi kx" by (simp only: e)
    then have "nz \<le> r" unfolding r_def by (rule round_half_even_ge)
    from scale_le[OF this, of kx] zf True rx show ?thesis by simp
  next
    case False
    with k have lt: "kz < kx" by simp
    have kxn: "kx = binade x - 52" and bz: "binade z < binade x"
      using lt x z by (auto simp: kx_def kz_def ulp_exponent_def max_def split: if_splits)
    have "z < 2 powi (binade z + 1)" by (rule binade_bounds(2)[OF z])
    also have "\<dots> \<le> 2 powi binade x"
      using bz by (intro power_int_increasing) simp_all
    finally have zlt: "z < 2 powi binade x" .
    define N :: int where "N = 2 ^ 52"
    have N: "(of_int N :: rat) = 2 powi 52" by (simp add: N_def)
    have "(2::rat) powi 52 * 2 powi kx = 2 powi (52 + kx)"
      by (rule power_int_add[symmetric]) simp
    also have "52 + kx = binade x" by (simp add: kxn)
    finally have Nk: "of_int N * (2::rat) powi kx = 2 powi binade x"
      by (simp only: N)
    then have "(of_int N :: rat) = 2 powi binade x / 2 powi kx"
      by (simp add: field_simps)
    also have "\<dots> \<le> x / 2 powi kx"
      using binade_bounds(1)[OF x] by (intro divide_right_mono) simp_all
    finally have "N \<le> r" unfolding r_def by (rule round_half_even_ge)
    from scale_le[OF this, of kx] have "2 powi binade x \<le> to_double x"
      unfolding rx Nk .
    with zlt show ?thesis by simp
  qed
qed


lemma to_double_le:
  assumes xz: "x \<le> z" and z: "to_double z = z"
  shows "to_double x \<le> z"
proof -
  consider (pos) "0 < x" | (zero) "x = 0" | (neg) "x < 0" by linarith
  then show ?thesis
  proof cases
    case pos
    then show ?thesis using xz z by (rule to_double_le_pos)
  next
    case zero
    with xz show ?thesis by simp
  next
    case neg
    then have nx: "0 < - x" by simp
    show ?thesis
    proof (cases "0 \<le> z")
      case True
      from to_double_nonneg[OF nx] have "to_double x \<le> 0" by (simp add: to_double_minus)
      with True show ?thesis by simp
    next
      case False
      then have nz: "0 < - z" by simp
      from xz have "- z \<le> - x" by simp
      from to_double_ge_pos[OF nz this] z show ?thesis by (simp add: to_double_minus)
    qed
  qed
qed

lemma to_double_ge:
  assumes zx: "z \<le> x" and z: "to_double z = z"
  shows "z \<le> to_double x"
proof -
  from zx have "- x \<le> - z" by simp
  moreover from z have "to_double (- z) = - z" by (simp add: to_double_minus)
  ultimately have "to_double (- x) \<le> - z" by (rule to_double_le)
  then show ?thesis by (simp add: to_double_minus)
qed

text \<open>A multiple of a power of two with at most 53 bits is left as it is.\<close>

lemma to_double_exact_pos:
  fixes n :: int
  assumes n: "0 < n" "n \<le> 2 ^ 53" and j: "- 1074 \<le> j"
  shows "to_double (of_int n * 2 powi j) = of_int n * 2 powi j"
proof -
  define x :: rat where "x = of_int n * 2 powi j"
  define b where "b = bitlen n - 1"
  have x: "0 < x" using n by (simp add: x_def)
  from of_int_bitlen_bounds[OF n(1)]
  have lo: "(2::rat) powi b \<le> of_int n" and hi: "(of_int n :: rat) < 2 powi (b + 1)"
    by (simp_all add: b_def)
  have "(2::rat) powi (b + j) = 2 powi b * 2 powi j" by (rule power_int_add) simp
  also have "\<dots> \<le> x" unfolding x_def using lo by (intro mult_right_mono) simp_all
  finally have xlo: "2 powi (b + j) \<le> x" .
  have "x < 2 powi (b + 1) * 2 powi j"
    unfolding x_def using hi by (intro mult_strict_right_mono) simp_all
  also have "\<dots> = 2 powi (b + 1 + j)"
    by (rule power_int_add[symmetric]) simp
  also have "b + 1 + j = b + j + 1" by simp
  finally have xhi: "x < 2 powi (b + j + 1)" .
  have bx: "binade x = b + j" by (rule binade_unique[OF x xlo xhi])
  define k where "k = ulp_exponent x"
  have kdef: "k = max (b + j - 52) (- 1074)"
    using x by (simp add: k_def ulp_exponent_def bx)
  have "(of_int n :: rat) \<le> of_int (2 ^ 53)" using n(2) by (simp only: of_int_le_iff)
  then have n53: "(of_int n :: rat) \<le> 2 powi 53" by simp
  with lo have "(2::rat) powi b \<le> 2 powi 53" by simp
  also have "(2::rat) powi 53 < 2 powi 54" by simp
  finally have "b < 54" by (rule powi_less_cancel)
  then have b53: "b \<le> 53" by simp
  have "\<exists>N::int. x / 2 powi k = of_int N"
  proof (cases "k \<le> j")
    case True
    have "(2::rat) powi (j - k) * 2 powi k = 2 powi (j - k + k)"
      by (rule power_int_add[symmetric]) simp
    then have "(2::rat) powi j = 2 powi (j - k) * 2 powi k" by simp
    also have "(2::rat) powi (j - k) = of_int (2 ^ nat (j - k))"
      using True by (simp add: power_int_def)
    finally have "x / 2 powi k = of_int (n * 2 ^ nat (j - k))"
      by (simp add: x_def)
    then show ?thesis by blast
  next
    case False
    with kdef j have "k = b + j - 52" "52 < b" by (auto simp: max_def split: if_splits)
    with b53 have b: "b = 53" and k: "k = j + 1" by simp_all
    from lo b n53 have "(of_int n :: rat) = 2 powi 53" by simp
    then have "x = 2 powi 53 * 2 powi j" by (simp only: x_def)
    also have "\<dots> = 2 powi (53 + j)"
      by (rule power_int_add[symmetric]) simp
    also have "53 + j = 52 + k" by (simp add: k)
    also have "(2::rat) powi (52 + k) = 2 powi 52 * 2 powi k" by (rule power_int_add) simp
    finally have "x / 2 powi k = 2 powi 52" by simp
    also have "\<dots> = of_int (2 ^ 52)" by simp
    finally show ?thesis by blast
  qed
  then obtain N :: int where N: "x / 2 powi k = of_int N" by blast
  then have "x = of_int N * 2 powi k" by (simp add: field_simps)
  moreover have "to_double x = of_int (round_half_even (x / 2 powi k)) * 2 powi k"
    by (simp add: to_double_pos[OF x] k_def)
  ultimately show ?thesis unfolding x_def[symmetric] by (simp add: N)
qed


lemma to_double_exact:
  fixes n :: int
  assumes n: "\<bar>n\<bar> \<le> 2 ^ 53" and j: "- 1074 \<le> j"
  shows "to_double (of_int n * 2 powi j) = of_int n * 2 powi j"
proof -
  consider (pos) "0 < n" | (zero) "n = 0" | (neg) "n < 0" by linarith
  then show ?thesis
  proof cases
    case pos
    with n show ?thesis by (intro to_double_exact_pos j) simp_all
  next
    case zero
    then show ?thesis by simp
  next
    case neg
    with n have "0 < - n" "- n \<le> 2 ^ 53" by simp_all
    from to_double_exact_pos[OF this j] have "to_double (- (of_int n * 2 powi j)) = - (of_int n * 2 powi j)"
      by simp
    then show ?thesis by (simp add: to_double_minus)
  qed
qed

text \<open>The result of rounding: at most 53 bits times a power of two not below the least.\<close>

lemma to_double_form_pos:
  assumes x: "0 < x"
  shows "\<exists>n. to_double x = of_int n * 2 powi ulp_exponent x \<and> 0 \<le> n \<and> n \<le> 2 ^ 53"
proof -
  define k where "k = ulp_exponent x"
  define n where "n = round_half_even (x / 2 powi k)"
  have "(of_int 0 :: rat) \<le> x / 2 powi k" using x by simp
  then have n0: "0 \<le> n" unfolding n_def by (rule round_half_even_ge)
  have kb: "binade x + 1 - 53 \<le> k" using x by (simp add: k_def ulp_exponent_def)
  have "x < 2 powi (binade x + 1)" by (rule binade_bounds(2)[OF x])
  also have "(2::rat) powi (binade x + 1) \<le> 2 powi (53 + k)"
    using kb by (intro power_int_increasing) simp_all
  also have "(2::rat) powi (53 + k) = 2 powi 53 * 2 powi k" by (rule power_int_add) simp
  finally have "x / 2 powi k < 2 powi 53" by (simp add: field_simps)
  then have "x / 2 powi k \<le> of_int (2 ^ 53)" by simp
  then have n53: "n \<le> 2 ^ 53" unfolding n_def by (rule round_half_even_le)
  have "to_double x = of_int n * 2 powi k"
    by (simp add: to_double_pos[OF x] k_def n_def)
  with n0 n53 show ?thesis unfolding k_def by blast
qed

lemma to_double_idem: "to_double (to_double x) = to_double x"
proof -
  have pos: "to_double (to_double y) = to_double y" if "0 < y" for y
  proof -
    from to_double_form_pos[OF that] obtain n where
      n: "to_double y = of_int n * 2 powi ulp_exponent y" "0 \<le> n" "n \<le> 2 ^ 53" by blast
    from n(2,3) have "\<bar>n\<bar> \<le> 2 ^ 53" by simp
    from to_double_exact[OF this ulp_exponent_ge(1)[of y]] n(1) show ?thesis by simp
  qed
  consider (p) "0 < x" | (z) "x = 0" | (n) "x < 0" by linarith
  then show ?thesis
  proof cases
    case p
    then show ?thesis by (rule pos)
  next
    case z
    then show ?thesis by simp
  next
    case n
    then have "0 < - x" by simp
    from pos[OF this] show ?thesis by (simp add: to_double_minus)
  qed
qed

text \<open>Every number that rounding leaves as it is, is a multiple of the least subnormal.\<close>

lemma to_double_fixed_multiple:
  assumes "to_double a = a"
  shows "\<exists>m::int. a = of_int m * 2 powi (- 1074)"
proof -
  have pos: "\<exists>m::int. y = of_int m * 2 powi (- 1074)" if y: "0 < y" and f: "to_double y = y" for y
  proof -
    from to_double_form_pos[OF y] f obtain n where
      n: "y = of_int n * 2 powi ulp_exponent y" by auto
    define k where "k = ulp_exponent y"
    define q :: rat where "q = 2 powi (- 1074)"
    have k: "- 1074 \<le> k" unfolding k_def by (rule ulp_exponent_ge(1))
    have e: "k + 1074 + (- 1074) = k" by simp
    have "(2::rat) powi (k + 1074 + (- 1074)) = 2 powi (k + 1074) * 2 powi (- 1074)"
      by (rule power_int_add) simp
    then have pk: "(2::rat) powi k = 2 powi (k + 1074) * q" unfolding e q_def .
    have c: "(2::rat) powi (k + 1074) = of_int (2 ^ nat (k + 1074))"
      using k by (simp add: power_int_def)
    from n have "y = of_int n * (of_int (2 ^ nat (k + 1074)) * q)"
      unfolding k_def[symmetric] pk c .
    then have "y = of_int (n * 2 ^ nat (k + 1074)) * q"
      by (simp only: of_int_mult mult.assoc)
    then show ?thesis unfolding q_def by blast
  qed
  consider (p) "0 < a" | (z) "a = 0" | (n) "a < 0" by linarith
  then show ?thesis
  proof cases
    case p
    then show ?thesis using assms by (rule pos)
  next
    case z
    then have "a = of_int 0 * 2 powi (- 1074)" by simp
    then show ?thesis by blast
  next
    case n
    then have "0 < - a" by simp
    moreover from assms have "to_double (- a) = - a" by (simp add: to_double_minus)
    ultimately obtain m :: int where "- a = of_int m * 2 powi (- 1074)" using pos by blast
    then have "a = of_int (- m) * 2 powi (- 1074)" by simp
    then show ?thesis by blast
  qed
qed


lemma to_double_power: "- 1074 \<le> j \<Longrightarrow> to_double (2 powi j) = 2 powi j"
  using to_double_exact[of 1 j] by simp

lemma below_one:
  assumes u: "to_double u = u" and u1: "u < 1"
  shows "u \<le> 1 - 2 powi (- 53)"
proof (cases "u \<le> 1 / 2")
  case True
  have "(1 / 2 :: rat) \<le> 1 - 2 powi (- 53)" by simp
  with True show ?thesis by simp
next
  case False
  then have up: "0 < u" and lo: "2 powi (- 1) \<le> u" by simp_all
  from u1 have hi: "u < 2 powi (- 1 + 1)" by simp
  have bu: "binade u = - 1" by (rule binade_unique[OF up lo hi])
  have k: "ulp_exponent u = - 53" using up by (simp add: ulp_exponent_def bu)
  define n where "n = round_half_even (u / 2 powi (- 53))"
  have un: "u = of_int n * 2 powi (- 53)"
    using to_double_pos[OF up] u by (simp add: k n_def)
  with u1 have "of_int n * (2::rat) powi (- 53) < 1" by simp
  then have "(of_int n :: rat) < of_int (2 ^ 53)" by (simp add: field_simps)
  then have "n < 2 ^ 53" by (simp only: of_int_less_iff)
  then have "n \<le> 2 ^ 53 - 1" by simp
  then have "(of_int n :: rat) \<le> of_int (2 ^ 53 - 1)" by (simp only: of_int_le_iff)
  then have "of_int n * (2::rat) powi (- 53) \<le> of_int (2 ^ 53 - 1) * 2 powi (- 53)"
    by (intro mult_right_mono) simp_all
  also have "\<dots> = 1 - 2 powi (- 53)" by simp
  finally show ?thesis using un by simp
qed

lemma to_double_error_normal:
  assumes y: "0 < y" and normal: "- 1022 \<le> binade y"
  shows "to_double y \<le> y * (1 + 2 powi (- 53))"
proof -
  define k where "k = ulp_exponent y"
  define h :: rat where "h = 2 powi (- 53)"
  have k: "k = binade y + (- 52)" using y normal by (simp add: k_def ulp_exponent_def)
  have "(2::rat) powi (- 53 + 1) = 2 powi (- 53) * 2 powi 1" by (rule power_int_add) simp
  then have h2: "(2::rat) powi (- 52) = h * 2" by (simp add: h_def)
  have "(2::rat) powi k = 2 powi binade y * 2 powi (- 52)"
    unfolding k by (rule power_int_add) simp
  then have pk: "(2::rat) powi k = 2 powi binade y * (h * 2)" by (simp only: h2)
  have hp: "0 < h" by (simp add: h_def)
  have "of_int (round_half_even (y / 2 powi k)) \<le> y / 2 powi k + 1 / 2"
    by (rule round_half_even_upper)
  then have "of_int (round_half_even (y / 2 powi k)) * 2 powi k \<le> (y / 2 powi k + 1 / 2) * 2 powi k"
    by (intro mult_right_mono) simp_all
  also have "\<dots> = y + 2 powi k / 2" by (simp add: field_simps)
  also have "\<dots> = y + 2 powi binade y * h" by (simp add: pk)
  also have "\<dots> \<le> y + y * h"
    using binade_bounds(1)[OF y] hp by (simp add: mult_right_mono)
  finally have "to_double y \<le> y + y * h" by (simp add: to_double_pos[OF y] k_def)
  then show ?thesis by (simp add: h_def algebra_simps)
qed


lemma scaled_draw_le_width:
  assumes a: "to_double a = a" and b: "to_double b = b" and ab: "a \<le> b"
    and u: "to_double u = u" "0 \<le> u" "u < 1"
  shows "to_double (u * to_double (b - a)) \<le> b - a"
proof -
  define x where "x = b - a"
  define D where "D = to_double x"
  define y where "y = u * D"
  define p where "p = to_double y"
  define h :: rat where "h = 2 powi (- 53)"
  define q :: rat where "q = 2 powi (- 1074)"
  have x0: "0 \<le> x" using ab by (simp add: x_def)
  have D0: "0 \<le> D" unfolding D_def using x0 by (rule to_double_ge) simp
  have Df: "to_double D = D" unfolding D_def by (rule to_double_idem)
  have pf: "to_double p = p" unfolding p_def by (rule to_double_idem)
  have yD: "y \<le> D" unfolding y_def using u D0 by (simp add: mult_left_le_one_le)
  have pD: "p \<le> D" unfolding p_def using yD Df by (rule to_double_le)
  have "p \<le> x"
  proof (cases "D \<le> x")
    case True
    with pD show ?thesis by simp
  next
    case False
    then have xD: "x < D" by simp
    show ?thesis
    proof (rule ccontr)
      assume "\<not> p \<le> x"
      then have "x \<le> p" by simp
      then have "D \<le> p" unfolding D_def using pf by (rule to_double_le)
      with pD have pDe: "p = D" by simp
      from xD D0 have Dp: "0 < D" and xp: "0 < x"
        using x0 xD by (auto simp: D_def less_le)
      from to_double_fixed_multiple[OF a] to_double_fixed_multiple[OF b]
      obtain ma mb :: int where "a = of_int ma * q" "b = of_int mb * q"
        unfolding q_def by blast
      then have xm: "x = of_int (mb - ma) * q" by (simp add: x_def algebra_simps)
      define m where "m = mb - ma"
      have qp: "0 < q" by (simp add: q_def)
      from xm xp qp have mp: "0 < m" by (simp add: m_def zero_less_mult_iff)
      have m53: "2 ^ 53 < m"
      proof (rule ccontr)
        assume "\<not> 2 ^ 53 < m"
        with mp have "\<bar>m\<bar> \<le> 2 ^ 53" by simp
        from to_double_exact[OF this, of "- 1074"] have "to_double x = x"
          by (simp add: xm m_def q_def)
        with xD show False by (simp add: D_def)
      qed
      define N :: int where "N = 2 ^ 53"
      define w :: rat where "w = 2 powi (- 1021)"
      from m53 have "N \<le> m" by (simp add: N_def)
      then have "(of_int N :: rat) \<le> of_int m" by (simp only: of_int_le_iff)
      then have s: "of_int N * q \<le> of_int m * q" using qp by (intro mult_right_mono) simp_all
      have N: "(of_int N :: rat) = 2 powi 53" by (simp add: N_def)
      have e: "53 + (- 1074) = (- 1021 :: int)" by simp
      have "(2::rat) powi (53 + (- 1074)) = 2 powi 53 * 2 powi (- 1074)"
        by (rule power_int_add) simp
      then have Nq: "of_int N * q = w" unfolding e N q_def w_def by (rule sym)
      from s have xl: "w \<le> x" unfolding xm m_def[symmetric] Nq .
      have wf: "to_double w = w" unfolding w_def by (rule to_double_power) simp
      have Dl: "w \<le> D" unfolding D_def using xl wf by (rule to_double_ge)
      have ul: "u \<le> 1 - h" unfolding h_def using u(1,3) by (rule below_one)
      have hp: "0 < h" "h < 1" by (simp_all add: h_def)
      have y0: "0 \<le> y" unfolding y_def using u(2) D0 by simp
      then consider (zero) "y = 0" | (small) "0 < y" "binade y < - 1022"
        | (normal) "0 < y" "- 1022 \<le> binade y"
        by linarith
      then show False
      proof cases
        case zero
        then have "p = 0" by (simp add: p_def)
        with pDe Dp show False by simp
      next
        case small
        define v :: rat where "v = 2 powi (- 1022)"
        have vf: "to_double v = v" unfolding v_def by (rule to_double_power) simp
        have "y < 2 powi (binade y + 1)" by (rule binade_bounds(2)[OF small(1)])
        also have "(2::rat) powi (binade y + 1) \<le> v"
          unfolding v_def using small(2) by (intro power_int_increasing) simp_all
        finally have "y \<le> v" by simp
        then have "p \<le> v" unfolding p_def using vf by (rule to_double_le)
        also have "v < w"
          unfolding v_def w_def by (intro power_int_strict_increasing) simp_all
        finally show False using Dl pDe by simp
      next
        case normal
        from to_double_error_normal[OF normal] have "p \<le> y * (1 + h)"
          by (simp add: p_def h_def)
        also have "y \<le> (1 - h) * D"
          unfolding y_def using ul D0 by (intro mult_right_mono) simp_all
        then have "y * (1 + h) \<le> (1 - h) * D * (1 + h)"
          using hp by (intro mult_right_mono) simp_all
        also have "(1 - h) * D * (1 + h) = D - D * (h * h)" by (simp add: algebra_simps)
        also have "\<dots> < D" using Dp hp by simp
        finally show False using pDe by simp
      qed
    qed
  qed
  then show ?thesis by (simp add: p_def y_def D_def x_def)
qed

lemma lerp_binary64:
  assumes a: "to_double a = a" and b: "to_double b = b" and ab: "a \<le> b"
    and u: "to_double u = u" "0 \<le> u" "u < 1"
  shows "a \<le> to_double (a + to_double (u * to_double (b - a)))"
    and "to_double (a + to_double (u * to_double (b - a))) \<le> b"
proof -
  define p where "p = to_double (u * to_double (b - a))"
  have "0 \<le> to_double (b - a)" using ab by (intro to_double_ge) simp_all
  with u(2) have "0 \<le> u * to_double (b - a)" by simp
  then have p0: "0 \<le> p" unfolding p_def by (rule to_double_ge) simp
  have px: "p \<le> b - a" unfolding p_def by (rule scaled_draw_le_width[OF assms])
  from p0 have "a \<le> a + p" by simp
  then show "a \<le> to_double (a + to_double (u * to_double (b - a)))"
    unfolding p_def[symmetric] using a by (rule to_double_ge)
  from px have "a + p \<le> b" by simp
  then show "to_double (a + to_double (u * to_double (b - a))) \<le> b"
    unfolding p_def[symmetric] using b by (rule to_double_le)
qed

subsection \<open>The largest finite number\<close>

lemma DBL_MAX_numeral [code]:
  "DBL_MAX = 179769313486231570814527423731704356798070567525844996598917476803157260780028538760589558632766878171540458953514382464234321326889464182768467546703537516986049910576551282076245490090389328944075868508455133942304583236903222948165808559332123348274797826204144723168738177180919299881250404026184124858368"
  by (simp add: DBL_MAX_def)

lemma DBL_MAX_form: "DBL_MAX = of_int (2 ^ 53 - 1) * 2 powi 971"
  by (simp add: DBL_MAX_def)

lemma DBL_MAX_pos: "0 < DBL_MAX"
  by (simp add: DBL_MAX_def)

lemma to_double_DBL_MAX: "to_double DBL_MAX = DBL_MAX"
  unfolding DBL_MAX_form by (rule to_double_exact) simp_all

lemma round_double_Finite:
  assumes "- DBL_MAX \<le> to_double x" "to_double x \<le> DBL_MAX"
  shows "round_double x = Finite (to_double x)"
  using assms by (simp add: round_double_def Let_def)

lemma round_double_between:
  assumes "- DBL_MAX \<le> x" "x \<le> DBL_MAX"
  shows "round_double x = Finite (to_double x)" "is_double (to_double x)"
proof -
  have up: "to_double x \<le> DBL_MAX"
    using assms(2) to_double_DBL_MAX by (rule to_double_le)
  have "to_double (- DBL_MAX) = - DBL_MAX" by (simp add: to_double_minus to_double_DBL_MAX)
  with assms(1) have lo: "- DBL_MAX \<le> to_double x" by (rule to_double_ge)
  from lo up show "round_double x = Finite (to_double x)" by (rule round_double_Finite)
  from lo up show "is_double (to_double x)" by (simp add: is_double_def to_double_idem abs_le_iff)
qed

section \<open>Properties of randomiseParameters\<close>

lemma randomise_loop_Cons:
  "randomise_loop random (par # rest) g =
     (par\<lparr>getVal := d_add (getMin par) (d_mul (fst (Uniform random g))
         (d_sub (getMax par) (getMin par)))\<rparr>
        # fst (randomise_loop random rest (snd (Uniform random g))),
      snd (randomise_loop random rest (snd (Uniform random g))))"
  by (simp add: Let_def split: prod.splits)

text \<open>
  One step of the loop: for a binary64 draw in \<open>[0, 1)\<close> and a range whose width does
  not overflow, none of the three operations overflows and the value stored lies in the
  range.
\<close>

lemma draw_within_range:
  assumes u: "is_double u" "0 \<le> u" "u < 1"
    and a: "is_double a" and b: "is_double b" and ab: "a \<le> b" and w: "b - a \<le> DBL_MAX"
  shows "\<exists>v. d_add (Finite a) (d_mul (Finite u) (d_sub (Finite b) (Finite a))) = Finite v \<and>
           is_double v \<and> a \<le> v \<and> v \<le> b"
proof -
  define D where "D = to_double (b - a)"
  define p where "p = to_double (u * D)"
  define v where "v = to_double (a + p)"
  from u a b have uf: "to_double u = u" and af: "to_double a = a" and bf: "to_double b = b"
    and al: "- DBL_MAX \<le> a" and bu: "b \<le> DBL_MAX"
    by (simp_all add: is_double_def abs_le_iff)
  have x0: "0 \<le> b - a" using ab by simp
  with DBL_MAX_pos have "- DBL_MAX \<le> b - a" by simp
  from round_double_between(1)[OF this w] have sub: "d_sub (Finite b) (Finite a) = Finite D"
    by (simp add: d_sub_def d_add_def D_def)
  have D0: "0 \<le> D" unfolding D_def using x0 by (rule to_double_ge) simp
  have y0: "0 \<le> u * D" using u(2) D0 by simp
  have p0: "0 \<le> p" unfolding p_def using y0 by (rule to_double_ge) simp
  have pw: "p \<le> b - a"
    unfolding p_def D_def using af bf ab uf u(2,3) by (rule scaled_draw_le_width)
  have yD: "u * D \<le> D" using u(2,3) D0 by (simp add: mult_left_le_one_le)
  have "D \<le> DBL_MAX" unfolding D_def using w to_double_DBL_MAX by (rule to_double_le)
  with yD have yu: "u * D \<le> DBL_MAX" by simp
  from y0 DBL_MAX_pos have "- DBL_MAX \<le> u * D" by simp
  from round_double_between(1)[OF this yu] have mul: "d_mul (Finite u) (Finite D) = Finite p"
    by (simp add: p_def)
  have lo: "a \<le> v" and hi: "v \<le> b"
    unfolding v_def p_def D_def using lerp_binary64[OF af bf ab uf u(2,3)] by simp_all
  from p0 al have sl: "- DBL_MAX \<le> a + p" by simp
  from pw bu have su: "a + p \<le> DBL_MAX" by simp
  from round_double_between[OF sl su] have add: "d_add (Finite a) (Finite p) = Finite v"
    and vd: "is_double v"
    by (simp_all add: d_add_def v_def)
  from sub mul add vd lo hi show ?thesis by simp
qed

lemma randomise_step:
  assumes "unit_draw uni" and "finite_range par"
  shows "within_range (par\<lparr>getVal := d_add (getMin par) (d_mul uni (d_sub (getMax par) (getMin par)))\<rparr>)"
proof -
  from assms(1) obtain u where u: "uni = Finite u" "is_double u" "0 \<le> u" "u < 1"
    by (auto simp: unit_draw_def split: ieee.splits)
  from assms(2) obtain a b where r: "getMin par = Finite a" "getMax par = Finite b"
    "is_double a" "is_double b" "a \<le> b" "b - a \<le> DBL_MAX"
    by (auto simp: finite_range_def split: ieee.splits)
  from draw_within_range[OF u(2,3,4) r(3,4,5,6)] u(1) r(1,2) show ?thesis
    by (auto simp: within_range_def)
qed

lemma randomise_loop_bounds:
  assumes "\<And>s. unit_draw (fst (Uniform random s))"
  shows "list_all2
           (\<lambda>p p'. getMin p' = getMin p \<and> getMax p' = getMax p \<and>
              (finite_range p \<longrightarrow> within_range p'))
           ps (fst (randomise_loop random ps g))"
proof (induction ps arbitrary: g)
  case Nil
  then show ?case by simp
next
  case (Cons par rest)
  from randomise_step[OF assms[of g]] Cons.IH[of "snd (Uniform random g)"] show ?case
    by (simp add: randomise_loop_Cons del: randomise_loop.simps(2))
qed

lemma lcg16_draw: "unit_draw (fst (Uniform lcg16 s))"
proof -
  define n where "n = (5 * s + 3) mod 16"
  have n: "n < 16" by (simp add: n_def)
  have "to_double (of_int (int n) * 2 powi (- 4)) = of_int (int n) * 2 powi (- 4)"
    using n by (intro to_double_exact) simp_all
  then have f: "to_double (of_nat n / 16) = of_nat n / 16" by simp
  have "(of_nat n :: rat) < of_nat 16" using n by (simp only: of_nat_less_iff)
  then have l: "(of_nat n :: rat) / 16 < 1" by simp
  with DBL_MAX_numeral have "\<bar>(of_nat n :: rat) / 16\<bar> \<le> DBL_MAX" by simp
  with f l show ?thesis by (simp add: lcg16_def Let_def unit_draw_def is_double_def n_def)
qed

text \<open>
  C9, as the code has it. \<^verbatim>\<open>randomiseParameters\<close> computes
  \<^verbatim>\<open>min + uni * (max - min)\<close> in binary64, operation by operation. When every draw of the generator is a
  number in \<open>[0, 1)\<close>, then after the call every parameter has the range it had, and
  the value of every parameter whose range has finite ends with \<open>min \<le> max\<close> and a
  width \<open>max - min\<close> of at most \<^verbatim>\<open>DBL_MAX\<close> lies in \<open>[min, max]\<close>, whatever the
  seed and the state of the generator.
\<close>

theorem randomiseParameters_within_bounds:
  assumes "\<forall>s. unit_draw (fst (Uniform random s))"
  shows "list_all2
           (\<lambda>p p'. getMin p' = getMin p \<and> getMax p' = getMax p \<and>
              (finite_range p \<longrightarrow> within_range p'))
           parameters (fst (randomiseParameters random parameters seed g))"
  unfolding randomiseParameters_def
  using randomise_loop_bounds[of random parameters] assms
  by blast

theorem randomiseParameters_within_bounds_witness:
  "(\<forall>s. unit_draw (fst (Uniform lcg16 s))) \<and>
   list_all finite_range two_parameters \<and>
   map getVal (fst (randomiseParameters lcg16 two_parameters 1338 7)) =
     [Finite (25 / 4), Finite (4503599627370497 / 72057594037927936)] \<and>
   list_all within_range (fst (randomiseParameters lcg16 two_parameters 1338 7))"
proof -
  have u: "\<forall>s. unit_draw (fst (Uniform lcg16 s))"
    using lcg16_draw by blast
  have r: "list_all finite_range two_parameters" by code_simp
  have v: "map getVal (fst (randomiseParameters lcg16 two_parameters 1338 7)) =
     [Finite (25 / 4), Finite (4503599627370497 / 72057594037927936)]"
    by code_simp
  from randomiseParameters_within_bounds[OF u, of two_parameters 1338 7] r
  have "list_all within_range (fst (randomiseParameters lcg16 two_parameters 1338 7))"
    by (auto simp: list_all2_conv_all_nth list_all_length)
  with u r v show ?thesis by simp
qed

text \<open>
  C9, as the specification states it, fails. A draw of 1, which \<open>[0, 1]\<close> admits, stores
  in the parameter with range \<^verbatim>\<open>[-0.05,0.1]\<close> the binary64 number next above its
  maximum. And with a range wider than \<^verbatim>\<open>DBL_MAX\<close> the width overflows: a draw of
  \<open>5/16\<close> stores plus infinity.
\<close>

theorem randomiseParameters_bounds_counterexample:
  "fst (Uniform draws_one ()) = Finite 1 \<and>
   list_all finite_range two_parameters \<and>
   map getMax two_parameters = [Finite 20, Finite (7205759403792794 / 72057594037927936)] \<and>
   map getVal (fst (randomiseParameters draws_one two_parameters 0 ())) =
     [Finite 20, Finite (7205759403792795 / 72057594037927936)] \<and>
   map within_range (fst (randomiseParameters draws_one two_parameters 0 ())) = [True, False] \<and>
   getMin wide_parameter = Finite (- DBL_MAX) \<and> getMax wide_parameter = Finite DBL_MAX \<and>
   fst (Uniform lcg16 10) = Finite (5 / 16) \<and>
   map getVal (fst (randomiseParameters lcg16 [wide_parameter] 0 10)) = [PlusInfinity] \<and>
   map within_range (fst (randomiseParameters lcg16 [wide_parameter] 0 10)) = [False]"
proof -
  have one: "fst (Uniform draws_one ()) = Finite 1" by (simp add: draws_one_def)
  have r: "list_all finite_range two_parameters" by code_simp
  have m: "map getMax two_parameters =
      [Finite 20, Finite (7205759403792794 / 72057594037927936)]"
    by code_simp
  have v: "map getVal (fst (randomiseParameters draws_one two_parameters 0 ())) =
     [Finite 20, Finite (7205759403792795 / 72057594037927936)]"
    by code_simp
  have w: "map within_range (fst (randomiseParameters draws_one two_parameters 0 ())) =
      [True, False]"
    by code_simp
  have d: "fst (Uniform lcg16 10) = Finite (5 / 16)" by (simp add: lcg16_def)
  define M :: rat where "M = of_int (2 ^ 53 - 1) * 2 powi 972"
  have Mf: "to_double M = M" unfolding M_def by (rule to_double_exact) simp_all
  have e: "2 * DBL_MAX = M" unfolding M_def DBL_MAX_form by simp
  have t: "to_double (2 * DBL_MAX) = M" unfolding e by (rule Mf)
  have lt: "DBL_MAX < M" using e DBL_MAX_pos by linarith
  have o: "d_sub (Finite DBL_MAX) (Finite (- DBL_MAX)) = PlusInfinity"
    by (simp add: d_sub_def d_add_def round_double_def t lt)
  have x: "map getVal (fst (randomiseParameters lcg16 [wide_parameter] 0 10)) = [PlusInfinity]"
    by (simp add: randomiseParameters_def wide_parameter_def lcg16_def o d_add_def)
  then have y: "map within_range (fst (randomiseParameters lcg16 [wide_parameter] 0 10)) = [False]"
    by (simp add: randomiseParameters_def wide_parameter_def lcg16_def within_range_def Let_def
        split: prod.splits)
  from one r m v w d x y show ?thesis by (simp add: wide_parameter_def)
qed

text \<open>
  C10, as the code has it. \<^verbatim>\<open>randomiseParameters\<close> draws from the generator of the
  process. With a seed other than 0 it reseeds that generator first: when reseeding
  leaves nothing of the earlier state, two calls with the same seed and the same
  parameters give the same values and leave the generator in the same state, whatever
  was drawn before.
\<close>

theorem randomiseParameters_reseeded:
  assumes "seed \<noteq> 0"
    and "\<forall>g g'. SetSeed random seed g = SetSeed random seed g'"
  shows "randomiseParameters random parameters seed g =
         randomiseParameters random parameters seed g'"
proof -
  from assms(2) have "SetSeed random seed g = SetSeed random seed g'" by blast
  with assms(1) show ?thesis by (simp add: randomiseParameters_def)
qed

theorem randomiseParameters_reseeded_witness:
  "(1338 :: 64 word) \<noteq> 0 \<and>
   (\<forall>g g'. SetSeed lcg16 1338 g = SetSeed lcg16 1338 g') \<and>
   randomiseParameters lcg16 two_parameters 1338 7 =
   randomiseParameters lcg16 two_parameters 1338 8"
proof -
  have n: "(1338 :: 64 word) \<noteq> 0" by simp
  have f: "\<forall>g g'. SetSeed lcg16 1338 g = SetSeed lcg16 1338 g'"
    by (simp add: lcg16_def)
  from randomiseParameters_reseeded[OF n f, of two_parameters 7 8] n f show ?thesis by blast
qed

text \<open>
  C10, as the specification states it, fails: with the default seed 0 the values assigned
  depend on the state the process-wide generator is in, and a call leaves that generator
  in another state than it found it.
\<close>

theorem randomiseParameters_global_generator_counterexample:
  "map getVal (fst (randomiseParameters lcg16 two_parameters 0 7)) =
     [Finite (15 / 2), Finite (- (5854679515581645 / 144115188075855872))] \<and>
   map getVal (fst (randomiseParameters lcg16 two_parameters 0 8)) =
     [Finite (55 / 4), Finite (788129934789837 / 18014398509481984)] \<and>
   map getVal (fst (randomiseParameters lcg16 two_parameters 0 7)) \<noteq>
   map getVal (fst (randomiseParameters lcg16 two_parameters 0 8)) \<and>
   snd (randomiseParameters lcg16 two_parameters 0 7) \<noteq> 7 \<and>
   snd (randomiseParameters lcg16 two_parameters 1338 7) \<noteq> 7"
proof -
  have a: "map getVal (fst (randomiseParameters lcg16 two_parameters 0 7)) =
     [Finite (15 / 2), Finite (- (5854679515581645 / 144115188075855872))]"
    by code_simp
  have b: "map getVal (fst (randomiseParameters lcg16 two_parameters 0 8)) =
     [Finite (55 / 4), Finite (788129934789837 / 18014398509481984)]"
    by code_simp
  have c: "snd (randomiseParameters lcg16 two_parameters 0 7) = 1"
    "snd (randomiseParameters lcg16 two_parameters 1338 7) = 12"
    by (simp_all add: randomiseParameters_def two_parameters_def lcg16_def Let_def
        randomise_loop_Cons del: randomise_loop.simps(2))
  from a b c show ?thesis by simp
qed

section \<open>The workspace of benchModel\<close>

lemma to_double_nEvents: "to_double (of_nat nEvents) = 100000"
  unfolding nEvents_def of_nat_numeral by code_simp

lemma to_double_literals:
  "to_double 0.2 = 3602879701896397 / 18014398509481984"
  "to_double 0.3 = 5404319552844595 / 18014398509481984"
  "to_double 0.1 = 3602879701896397 / 36028797018963968"
  by code_simp+

lemma to_double_products:
  "to_double (3602879701896397 / 18014398509481984 * 100000) = 20000"
  "to_double (5404319552844595 / 18014398509481984 * 100000) = 30000"
  "to_double (3602879701896397 / 36028797018963968 * 100000) = 10000"
  by code_simp+

text \<open>
  The rounding is at work: the literal \<^verbatim>\<open>0.3\<close> is not three tenths and its exact
  product with 100000 is not 30000; the rounded product is. Three times the literal
  \<^verbatim>\<open>0.1\<close> rounds to the binary64 number next above the literal \<^verbatim>\<open>0.3\<close>.
\<close>

lemma to_double_inexact:
  "to_double 0.3 \<noteq> 0.3"
  "to_double 0.3 * 100000 \<noteq> 30000"
  "to_double (to_double 0.1 * 3) = 5404319552844596 / 18014398509481984"
  unfolding to_double_literals by code_simp+

lemma literal_times_nEvents:
  "literal_times 0.2 nEvents = 20000"
  "literal_times 0.3 nEvents = 30000"
  "literal_times 0.1 nEvents = 10000"
  unfolding literal_times_def to_double_nEvents to_double_literals to_double_products
  by simp_all

lemma build_workspace_vars:
  "vars build_workspace ''ns1'' = Some \<lparr>val = None, limits = Some (0, 1000000000)\<rparr>"
  "vars build_workspace ''ns2'' = Some \<lparr>val = None, limits = Some (0, 10000000000)\<rparr>"
  "vars build_workspace ''ng2'' = Some \<lparr>val = None, limits = Some (0, 1000000000)\<rparr>"
  "vars build_workspace ''ng3'' = Some \<lparr>val = None, limits = Some (0, 10000000000)\<rparr>"
  "vars build_workspace ''npol'' = Some \<lparr>val = None, limits = Some (0, 10000000000)\<rparr>"
  "vars build_workspace ''x'' = Some \<lparr>val = None, limits = Some (0, 20)\<rparr>"
  by (simp_all add: build_workspace_def)

lemma build_workspace_model:
  "pdfs build_workspace ''model'' =
     Some (RooAddPdf [(''ns1'', ''vpdf''), (''ns2'', ''gpdf''), (''ng2'', ''g2''),
                      (''ng3'', ''g3''), (''npol'', ''pol'')])"
  by (simp add: build_workspace_def)

lemma set_coefficients_build_workspace:
  "set_coefficients build_workspace =
     Inr (build_workspace\<lparr>vars := (vars build_workspace)
       (''ns1'' \<mapsto> \<lparr>val = Some 20000, limits = Some (0, 1000000000)\<rparr>,
        ''ns2'' \<mapsto> \<lparr>val = Some 30000, limits = Some (0, 10000000000)\<rparr>,
        ''ng2'' \<mapsto> \<lparr>val = Some 10000, limits = Some (0, 1000000000)\<rparr>,
        ''ng3'' \<mapsto> \<lparr>val = Some 10000, limits = Some (0, 10000000000)\<rparr>,
        ''npol'' \<mapsto> \<lparr>val = Some 30000, limits = Some (0, 10000000000)\<rparr>)\<rparr>)"
  unfolding set_coefficients_def literal_times_nEvents
  by (simp add: and_then_def setVal_def build_workspace_vars)

section \<open>What a run of benchModel leaves as it is\<close>

lemma setVal_structure:
  "setVal name v w = Inr w' \<Longrightarrow> model_structure w' = model_structure w"
  by (auto simp: setVal_def model_structure_def fun_eq_iff split: option.splits)

lemma assign_structure: "model_structure (assign result w) = model_structure w"
proof (induction result arbitrary: w)
  case Nil
  then show ?case by simp
next
  case (Cons a rest)
  obtain name v where a: "a = (name, v)" by (cases a)
  show ?case
  proof (cases "setVal name v w")
    case (Inl err)
    with a Cons.IH[of w] show ?thesis by simp
  next
    case (Inr w')
    with a Cons.IH[of w'] setVal_structure[OF Inr] show ?thesis by simp
  qed
qed

lemma set_coefficients_structure:
  "set_coefficients w = Inr w' \<Longrightarrow> model_structure w' = model_structure w"
  unfolding set_coefficients_def and_then_def
  by (auto split: sum.splits dest!: setVal_structure)

lemma loop_body_frame:
  "data (loop_body L runConfig st) = data st \<and>
   model_structure (ws (loop_body L runConfig st)) = model_structure (ws st) \<and>
   calls (loop_body L runConfig st) =
     calls st @ (case fit_options runConfig of None \<Rightarrow> [] | Some options \<Rightarrow> [FitTo ''model'' options])"
  by (simp add: loop_body_def assign_structure split: option.splits prod.splits)

lemma state_loop_frame:
  "data (state_loop L runConfig n st) = data st \<and>
   model_structure (ws (state_loop L runConfig n st)) = model_structure (ws st) \<and>
   calls (state_loop L runConfig n st) =
     calls st @ (case fit_options runConfig of None \<Rightarrow> []
                 | Some options \<Rightarrow> replicate n (FitTo ''model'' options))"
proof (induction n arbitrary: st)
  case 0
  then show ?case by (simp split: option.splits)
next
  case (Suc n)
  from Suc.IH[of "loop_body L runConfig st"] loop_body_frame[of L runConfig st]
  show ?case by (simp add: replicate_app_Cons_same split: option.splits)
qed

lemma benchModel_unfold:
  "benchModel L range0 iterations e =
     (case set_coefficients build_workspace of
        Inl err \<Rightarrow> Inl err
      | Inr w \<Rightarrow>
          Inr (state_loop L range0 iterations
            \<lparr>ws = w,
             data = fst (generate L w ''model'' [''x''] nEvents (setGlobalKillBelow L WARNING e)),
             lib = snd (generate L w ''model'' [''x''] nEvents (setGlobalKillBelow L WARNING e)),
             calls = [Generate ''model'' [''x''] nEvents]\<rparr>))"
  unfolding set_coefficients_build_workspace
  by (simp add: benchModel_def and_then_def set_coefficients_build_workspace Let_def
      build_workspace_model build_workspace_vars split: prod.splits)

lemma benchModel_run:
  "\<exists>st w. benchModel L runConfig iterations e = Inr st \<and>
     set_coefficients build_workspace = Inr w \<and>
     data st = fst (generate L w ''model'' [''x''] 100000 (setGlobalKillBelow L WARNING e)) \<and>
     model_structure (ws st) = model_structure build_workspace \<and>
     calls st = Generate ''model'' [''x''] 100000 #
       (case fit_options runConfig of
          None \<Rightarrow> []
        | Some options \<Rightarrow> replicate iterations (FitTo ''model'' options)) \<and>
     length (filter is_Generate (calls st)) = 1"
proof -
  obtain w where w: "set_coefficients build_workspace = Inr w"
    using set_coefficients_build_workspace by blast
  define st0 :: "('a, 'b) bench" where "st0 =
    \<lparr>ws = w,
     data = fst (generate L w ''model'' [''x''] nEvents (setGlobalKillBelow L WARNING e)),
     lib = snd (generate L w ''model'' [''x''] nEvents (setGlobalKillBelow L WARNING e)),
     calls = [Generate ''model'' [''x''] nEvents]\<rparr>"
  have b: "benchModel L runConfig iterations e = Inr (state_loop L runConfig iterations st0)"
    by (simp add: benchModel_unfold w st0_def)
  note f = state_loop_frame[of L runConfig iterations st0]
  have d: "data (state_loop L runConfig iterations st0) =
      fst (generate L w ''model'' [''x''] 100000 (setGlobalKillBelow L WARNING e))"
    using f by (simp add: st0_def nEvents_def)
  have m: "model_structure (ws (state_loop L runConfig iterations st0)) =
      model_structure build_workspace"
    using f set_coefficients_structure[OF w] by (simp add: st0_def)
  have c: "calls (state_loop L runConfig iterations st0) =
      Generate ''model'' [''x''] 100000 #
       (case fit_options runConfig of
          None \<Rightarrow> []
        | Some options \<Rightarrow> replicate iterations (FitTo ''model'' options))"
    using f by (simp add: st0_def nEvents_def)
  have g: "length (filter is_Generate (calls (state_loop L runConfig iterations st0))) = 1"
    unfolding c by (simp add: is_Generate_def split: option.splits)
  from b w d m c g show ?thesis by blast
qed

lemma run_benchmarks_generate:
  assumes "\<forall>b \<in> set bs. Args b \<noteq> []"
  shows "list_all (\<lambda>r. \<exists>st. snd r = Inr st \<and> length (filter is_Generate (calls st)) = 1)
           (run_benchmarks L bs iterations e) \<and>
         map fst (run_benchmarks L bs iterations e) = map Name bs"
  using assms
proof (induction bs arbitrary: e)
  case Nil
  then show ?case by simp
next
  case (Cons b rest)
  from Cons.prems obtain range0 others where a: "Args b = range0 # others"
    by (cases "Args b") simp_all
  obtain st where st: "benchModel L range0 iterations e = Inr st"
    "length (filter is_Generate (calls st)) = 1"
    using benchModel_run[of L range0 iterations e] by blast
  from Cons.prems have "\<forall>b \<in> set rest. Args b \<noteq> []" by simp
  from Cons.IH[OF this, of "lib st"] a st show ?case by simp
qed

lemma registered_Args: "\<forall>b \<in> set (registered R__HAS_CUDA). Args b \<noteq> []"
  by (simp add: registered_def)

text \<open>
  C8. In every run of \<^verbatim>\<open>benchModel\<close>, whatever the strategy and the number of
  iterations: the run ends normally; the observation array is generated by one call, for
  \<open>nEvents = 100000\<close> events, before the loop, and no call of the loop generates
  another; after the loop the dataset is the one that call returned, and the structure of
  the model is the one the factory calls built. In a run of all registered benchmarks,
  each benchmark generates its array once.
\<close>

theorem benchModel_generates_once:
  "(\<exists>st w. benchModel L runConfig iterations e = Inr st \<and>
      set_coefficients build_workspace = Inr w \<and>
      data st = fst (generate L w ''model'' [''x''] 100000 (setGlobalKillBelow L WARNING e)) \<and>
      model_structure (ws st) = model_structure build_workspace \<and>
      calls st = Generate ''model'' [''x''] 100000 #
        (case fit_options runConfig of
           None \<Rightarrow> []
         | Some options \<Rightarrow> replicate iterations (FitTo ''model'' options)) \<and>
      length (filter is_Generate (calls st)) = 1) \<and>
   nEvents = 100000 \<and>
   list_all (\<lambda>r. \<exists>st. snd r = Inr st \<and> length (filter is_Generate (calls st)) = 1)
     (BENCHMARK_MAIN L R__HAS_CUDA iterations e) \<and>
   map fst (BENCHMARK_MAIN L R__HAS_CUDA iterations e) = map Name (registered R__HAS_CUDA)"
proof -
  have "list_all (\<lambda>r. \<exists>st. snd r = Inr st \<and> length (filter is_Generate (calls st)) = 1)
      (BENCHMARK_MAIN L R__HAS_CUDA iterations e) \<and>
    map fst (BENCHMARK_MAIN L R__HAS_CUDA iterations e) = map Name (registered R__HAS_CUDA)"
    unfolding BENCHMARK_MAIN_def by (rule run_benchmarks_generate[OF registered_Args])
  with benchModel_run[of L runConfig iterations e] show ?thesis
    by (simp add: nEvents_def)
qed

theorem benchModel_generates_once_witness:
  "(\<exists>st. benchModel counting_library 1 3 0 = Inr st \<and>
      data st = 100000 \<and>
      model_structure (ws st) = model_structure build_workspace \<and>
      calls st =
        [Generate ''model'' [''x''] 100000,
         FitTo ''model'' [BatchMode ''cpu'', Minimizer ''Minuit2'', PrintLevel (- 1)],
         FitTo ''model'' [BatchMode ''cpu'', Minimizer ''Minuit2'', PrintLevel (- 1)],
         FitTo ''model'' [BatchMode ''cpu'', Minimizer ''Minuit2'', PrintLevel (- 1)]]) \<and>
   map fst (BENCHMARK_MAIN counting_library True 3 0) = [''fit_Scalar'', ''fit_CPU'', ''fit_CUDA'']"
  using benchModel_generates_once[of counting_library 1 3 0 True]
  by (auto simp: counting_library_def fit_options_def numeral_3_eq_3 registered_def)

section \<open>Registration and dispatch\<close>

text \<open>
  \<^verbatim>\<open>fit_CUDA\<close> is registered exactly when \<^verbatim>\<open>R__HAS_CUDA\<close> is defined, and
  a run with \<^verbatim>\<open>fitCuda\<close> passes \<^verbatim>\<open>BatchMode("cuda")\<close> to every fit.
\<close>

lemma registered_accelerator:
  "(''fit_CUDA'' \<in> Name ` set (registered R__HAS_CUDA)) = R__HAS_CUDA \<and>
   ([enumerator fitCuda] \<in> Args ` set (registered R__HAS_CUDA)) = R__HAS_CUDA"
  by (cases R__HAS_CUDA) (simp_all add: registered_def)

lemma benchModel_fitCuda_calls:
  "\<exists>st. benchModel L (enumerator fitCuda) iterations e = Inr st \<and>
     calls st = Generate ''model'' [''x''] nEvents #
       replicate iterations
         (FitTo ''model'' [BatchMode ''cuda'', Minimizer ''Minuit2'', PrintLevel (- 1)])"
proof -
  obtain w where w: "set_coefficients build_workspace = Inr w"
    using set_coefficients_build_workspace by blast
  show ?thesis
    using state_loop_frame[of L "enumerator fitCuda" iterations]
    by (simp add: benchModel_unfold w fit_options_def)
qed

section \<open>The coefficients after the setVal calls\<close>

lemma configured_coefficients:
  "\<exists>w. set_coefficients build_workspace = Inr w \<and>
     coefficients w ''model'' = Some [20000, 30000, 10000, 10000, 30000] \<and>
     coefficient_limits w ''model'' =
       Some [(0, 1000000000), (0, 10000000000), (0, 1000000000), (0, 10000000000),
             (0, 10000000000)]"
  unfolding set_coefficients_build_workspace
  by (simp add: coefficients_def coefficient_limits_def build_workspace_model)

lemma configured_coefficients_sum:
  "sum_list [20000, 30000, 10000, 10000, 30000 :: real] = real nEvents \<and> nEvents = 100000"
  by (simp add: nEvents_def)

section \<open>The floor\<close>








end
